theory Spec2Isabelle
  imports Main "HOL-Library.Char_ord" "HOL-Library.List_Lexorder"
begin

section \<open>The type graph\<close>

text \<open>
  The package \<open>schema\<close> of tutone holds a GraphQL introspection schema as Go structs.
  A \<open>*Type\<close> is a pointer into a store of \<open>Type\<close> structs: the schema's slice
  \<open>Types\<close> holds such pointers, \<open>LookupTypeByName\<close> hands them out, and
  \<open>GetQueryStringFields\<close> sorts the \<open>Fields\<close> slice of the struct behind its receiver in
  place. The store is therefore explicit: an address is a natural number, a nil pointer is
  \<open>None\<close>, and every struct owns the backing array of its \<open>Fields\<close> slice (as after JSON
  decoding).
\<close>

text \<open>
  Modelled from the spec: the declaration of \<open>Kind\<close> is not among the source files; the spec
  lists the eight tags of a type kind.
\<close>

datatype Kind =
  KindScalar | KindObject | KindInterface | KindUnion
  | KindENUM | KindInputObject | KindList | KindNonNull

text \<open>
  Modelled from the spec: the declaration of \<open>TypeRef\<close> is not among the source files. The spec
  describes it as a kind, a name and an optional nested reference \<open>OfType\<close> for the
  \<open>LIST\<close> and \<open>NON_NULL\<close> wrappers; the source reads \<open>OfType\<close> (compared with nil)
  and \<open>Name\<close>.
\<close>

datatype TypeRef =
  TypeRef (TypeRef_Name: string) (TypeRef_Kind: Kind) (TypeRef_OfType: "TypeRef option")

text \<open>
  Modelled from the spec: \<open>Argument\<close> and \<open>Field\<close> are declared outside the source files
  at hand. An argument has a name, a type reference and an optional default value; a field has
  a name, a description, a type reference and its arguments.
\<close>

record Argument =
  Argument_Name :: string
  Argument_Type :: TypeRef
  Argument_DefaultValue :: "string option"

record Field =
  Field_Name :: string
  Field_Description :: string
  Field_Type :: TypeRef
  Field_Args :: "Argument list"

typedecl EnumValue

text \<open>The struct \<open>Type\<close>, field by field.\<close>

record Type =
  Type_Name :: string
  Type_Description :: string
  Type_Kind :: Kind
  Type_EnumValues :: "EnumValue list"
  Type_Fields :: "Field list"
  Type_InputFields :: "Field list"
  Type_Interfaces :: "TypeRef list"
  Type_PossibleTypes :: "TypeRef list"
  Type_SkipFields :: "string list"

type_synonym addr = nat

type_synonym heap = "addr \<Rightarrow> Type"

text \<open>
  Modelled from the spec: the struct \<open>Schema\<close> is declared outside the source files at hand.
  \<open>ExpandTypes\<close> ranges over \<open>s.Types\<close> and compares each entry with nil, so the slice
  holds pointers.
\<close>

record Schema =
  Schema_Types :: "addr option list"

text \<open>
  Modelled from the spec: \<open>TypeInfo\<close> comes from the configuration package, which is not
  among the source files; \<open>typeNameInTypes\<close> reads its \<open>Name\<close> only.
\<close>

record TypeInfo =
  TypeInfo_Name :: string

section \<open>Helpers that the source calls\<close>

text \<open>
  Modelled from the spec: \<open>TypeRef.GetTypeName\<close> is not among the source files. The spec
  speaks of the unwrapped leaf of a reference, whose name identifies the target type.
\<close>

fun GetTypeName :: "TypeRef \<Rightarrow> string" where
  "GetTypeName (TypeRef n k None) = n"
| "GetTypeName (TypeRef n k (Some r)) = GetTypeName r"

text \<open>
  Modelled from the spec: \<open>TypeRef.GetKinds\<close> is not among the source files. The kinds of a
  reference are listed from the outermost wrapper to the leaf; the source takes the last one
  as the effective kind.
\<close>

fun GetKinds :: "TypeRef \<Rightarrow> Kind list" where
  "GetKinds (TypeRef n k None) = [k]"
| "GetKinds (TypeRef n k (Some r)) = k # GetKinds r"

text \<open>
  Modelled from the spec: \<open>Field.HasRequiredArg\<close> is not among the source files. An argument
  is required iff its reference is \<open>NON_NULL\<close> at the top level and it has no default value;
  a field has a required argument iff one of its arguments is required.
\<close>

definition IsRequired :: "Argument \<Rightarrow> bool" where
  "IsRequired a \<longleftrightarrow>
     TypeRef_Kind (Argument_Type a) = KindNonNull \<and> Argument_DefaultValue a = None"

definition HasRequiredArg :: "Field \<Rightarrow> bool" where
  "HasRequiredArg f \<longleftrightarrow> list_ex IsRequired (Field_Args f)"

text \<open>
  Modelled from the spec: \<open>stringInStrings\<close> is not among the source files; it tells whether
  a string is present in a slice of strings.
\<close>

definition stringInStrings :: "string \<Rightarrow> string list \<Rightarrow> bool" where
  "stringInStrings x xs \<longleftrightarrow> x \<in> set xs"

text \<open>
  Modelled from the spec: \<open>Schema.LookupTypeByName\<close> is not among the source files. The spec
  makes it an exact-match lookup against the loaded types that is total and returns the shared
  reference, or NotFound. Its Go result \<open>(*Type, error)\<close> is an option here: \<open>None\<close> is the
  nil pointer that comes with the error.
\<close>

fun lookup_types :: "heap \<Rightarrow> addr option list \<Rightarrow> string \<Rightarrow> addr option" where
  "lookup_types h [] name = None"
| "lookup_types h (None # ps) name = lookup_types h ps name"
| "lookup_types h (Some a # ps) name =
     (if Type_Name (h a) = name then Some a else lookup_types h ps name)"

definition LookupTypeByName :: "heap \<Rightarrow> Schema \<Rightarrow> string \<Rightarrow> addr option" where
  "LookupTypeByName h s name = lookup_types h (Schema_Types s) name"

section \<open>Type expansion\<close>

text \<open>Errors are the messages given to \<open>fmt.Errorf\<close>; a panic of the Go runtime is a value.\<close>

type_synonym error = string

datatype panic = NilPointerDereference | IndexOutOfRange

text \<open>\<open>typeNameInTypes\<close>: is a name already present in a set of TypeInfo.\<close>

fun typeNameInTypes :: "string \<Rightarrow> TypeInfo list \<Rightarrow> bool" where
  "typeNameInTypes s [] = False"
| "typeNameInTypes s (t # types) = (if TypeInfo_Name t = s then True else typeNameInTypes s types)"

text \<open>\<open>hasType\<close>: is a type of the same name already present in a slice of type pointers.\<close>

fun hasType :: "heap \<Rightarrow> addr \<Rightarrow> addr list \<Rightarrow> bool" where
  "hasType h t [] = False"
| "hasType h t (tt # types) =
     (if Type_Name (h t) = Type_Name (h tt) then True else hasType h t types)"

text \<open>
  The two loops of \<open>ExpandType\<close> have the same body: a field whose reference has an
  \<open>OfType\<close> is looked up by the type name of that \<open>OfType\<close>, and a result that is not nil
  is appended. The error of a lookup is logged only.
\<close>

fun collect_nested :: "heap \<Rightarrow> Schema \<Rightarrow> Field list \<Rightarrow> addr list \<Rightarrow> addr list" where
  "collect_nested h s [] f = f"
| "collect_nested h s (i # rest) f =
     (case TypeRef_OfType (Field_Type i) of
        None \<Rightarrow> collect_nested h s rest f
      | Some r \<Rightarrow>
          (case LookupTypeByName h s (GetTypeName r) of
             None \<Rightarrow> collect_nested h s rest f
           | Some result \<Rightarrow> collect_nested h s rest (f @ [result])))"

definition ExpandType :: "heap \<Rightarrow> Schema option \<Rightarrow> addr option \<Rightarrow> error + addr list" where
  "ExpandType h s t =
     (case s of
        None \<Rightarrow> Inl ''unable to expand type from nil schema''
      | Some sc \<Rightarrow>
          (case t of
             None \<Rightarrow> Inl ''unable to expand nil type''
           | Some a \<Rightarrow>
               Inr (collect_nested h sc (Type_Fields (h a))
                      (collect_nested h sc (Type_InputFields (h a)) []))))"

text \<open>The inner loop of \<open>ExpandTypes\<close>: append the types whose name is not there yet.\<close>

fun append_unique :: "heap \<Rightarrow> addr list \<Rightarrow> addr list \<Rightarrow> addr list" where
  "append_unique h [] expandedTypes = expandedTypes"
| "append_unique h (f # fs) expandedTypes =
     (if \<not> hasType h f expandedTypes then append_unique h fs (expandedTypes @ [f])
      else append_unique h fs expandedTypes)"

text \<open>
  The outer loop of \<open>ExpandTypes\<close> over \<open>s.Types\<close>. \<open>Type.GetName\<close> is
  \<open>formatGoName(t.Name)\<close>; \<open>formatGoName\<close> is not among the source files and is a
  parameter here. When \<open>ExpandType\<close> fails, its error is logged and the nil result is
  dereferenced by the \<open>range\<close> that follows.
\<close>

fun expand_loop ::
  "(string \<Rightarrow> string) \<Rightarrow> heap \<Rightarrow> Schema \<Rightarrow> TypeInfo list \<Rightarrow> addr option list \<Rightarrow> addr list
     \<Rightarrow> panic + addr list" where
  "expand_loop formatGoName h s types [] expandedTypes = Inr expandedTypes"
| "expand_loop formatGoName h s types (None # rest) expandedTypes =
     expand_loop formatGoName h s types rest expandedTypes"
| "expand_loop formatGoName h s types (Some schemaType # rest) expandedTypes =
     (if typeNameInTypes (formatGoName (Type_Name (h schemaType))) types then
        (case ExpandType h (Some s) (Some schemaType) of
           Inl err \<Rightarrow> Inl NilPointerDereference
         | Inr fieldTypes \<Rightarrow>
             expand_loop formatGoName h s types rest
               (append_unique h fieldTypes (expandedTypes @ [schemaType])))
      else expand_loop formatGoName h s types rest expandedTypes)"

definition ExpandTypes ::
  "(string \<Rightarrow> string) \<Rightarrow> heap \<Rightarrow> Schema option \<Rightarrow> TypeInfo list \<Rightarrow> panic + (error + addr list)" where
  "ExpandTypes formatGoName h s types =
     (case s of
        None \<Rightarrow> Inr (Inl ''unable to expand types from nil schema'')
      | Some sc \<Rightarrow>
          (case expand_loop formatGoName h sc types (Schema_Types sc) [] of
             Inl p \<Rightarrow> Inl p
           | Inr expandedTypes \<Rightarrow> Inr (Inr expandedTypes)))"

section \<open>Selection-set synthesis\<close>

text \<open>
  \<open>strings.Join(lines, sep)\<close> and \<open>strings.Split(s, sep)\<close> of the Go library, the latter
  for a separator of one byte: the source splits at the newline only. Splitting the empty
  string gives one empty line.
\<close>

fun Join :: "string list \<Rightarrow> string \<Rightarrow> string" where
  "Join [] sep = []"
| "Join [a] sep = a"
| "Join (a # b # rest) sep = a @ sep @ Join (b # rest) sep"

fun Split :: "string \<Rightarrow> char \<Rightarrow> string list" where
  "Split [] sep = [[]]"
| "Split (c # cs) sep =
     (if c = sep then [] # Split cs sep
      else (case Split cs sep of [] \<Rightarrow> [[c]] | l # ls \<Rightarrow> (c # l) # ls))"

definition newline :: char where
  "newline = CHR 0x0A"

definition tab :: char where
  "tab = CHR 0x09"

text \<open>
  \<open>depth++\<close> on a Go \<open>int\<close> of 64 bits: the successor of the largest value is the
  smallest one.
\<close>

definition inc_int :: "int \<Rightarrow> int" where
  "inc_int d = (if d = 9223372036854775807 then - 9223372036854775808 else d + 1)"

text \<open>
  A call of \<open>GetQueryStringFields\<close> returns its string and the store it leaves, or panics, or
  does not return: the recursion through the possible types of a type is not bounded by the
  depth. The model counts nested calls with a fuel: \<open>None\<close> says that the call needs more
  nested calls than the fuel allows.
\<close>

type_synonym 'a outcome = "(panic + 'a) option"

text \<open>
  The body of the loop over \<open>t.Fields\<close>. Its state is the store, \<open>lines\<close> and
  \<open>parentFieldNames\<close>; \<open>call\<close> is the recursive call of the method (on the store and a
  receiver), and \<open>depth\<close> is the incremented depth. \<open>continue\<close> leaves the state as it is.
  An empty \<open>kinds\<close> makes the index \<open>len(kinds)-1\<close> panic.
\<close>

definition field_step ::
  "(heap \<Rightarrow> addr option \<Rightarrow> (string \<times> heap) outcome) \<Rightarrow> Schema \<Rightarrow> int \<Rightarrow> int \<Rightarrow> bool
     \<Rightarrow> string list \<Rightarrow> Field \<Rightarrow> heap \<times> string list \<times> string list
     \<Rightarrow> (heap \<times> string list \<times> string list) outcome" where
  "field_step call s depth maxDepth isMutation excludeFields field st =
     (case st of (h, lines, parentFieldNames) \<Rightarrow>
        if \<not> isMutation \<and> HasRequiredArg field then Some (Inr st)
        else if stringInStrings (Field_Name field) excludeFields then Some (Inr st)
        else
          (let kinds = GetKinds (Field_Type field) in
           if kinds = [] then Some (Inl IndexOutOfRange)
           else
             (let lastKind = last kinds in
              if lastKind = KindObject \<or> lastKind = KindInterface then
                (if depth > maxDepth then Some (Inr st)
                 else
                   (case LookupTypeByName h s (GetTypeName (Field_Type field)) of
                      None \<Rightarrow> Some (Inr st)
                    | Some subT \<Rightarrow>
                        (case call h (Some subT) of
                           None \<Rightarrow> None
                         | Some (Inl p) \<Rightarrow> Some (Inl p)
                         | Some (Inr (subTContent, h')) \<Rightarrow>
                             (let subTLines = Split subTContent newline in
                              if subTContent = [] \<or> length subTLines < 1
                              then Some (Inr (h', lines, parentFieldNames))
                              else Some (Inr (h',
                                     lines @ [Field_Name field @ '' {'']
                                       @ (if lastKind = KindInterface
                                          then [tab # ''__typename''] else [])
                                       @ map ((#) tab) subTLines @ [''}''],
                                     parentFieldNames))))))
              else Some (Inr (h, lines @ [Field_Name field],
                              parentFieldNames @ [Field_Name field])))))"

text \<open>
  The loop over \<open>t.Fields\<close>. The \<open>range\<close> clause evaluates the slice once, after the sort;
  the nested calls only sort \<open>Fields\<close> slices, and a stable sort leaves a sorted slice as it
  is, so the elements the loop reads are those of the sorted slice.
\<close>

fun fields_loop ::
  "(heap \<Rightarrow> addr option \<Rightarrow> (string \<times> heap) outcome) \<Rightarrow> Schema \<Rightarrow> int \<Rightarrow> int \<Rightarrow> bool
     \<Rightarrow> string list \<Rightarrow> Field list \<Rightarrow> heap \<times> string list \<times> string list
     \<Rightarrow> (heap \<times> string list \<times> string list) outcome" where
  "fields_loop call s depth maxDepth isMutation excludeFields [] st = Some (Inr st)"
| "fields_loop call s depth maxDepth isMutation excludeFields (field # rest) st =
     (case field_step call s depth maxDepth isMutation excludeFields field st of
        None \<Rightarrow> None
      | Some (Inl p) \<Rightarrow> Some (Inl p)
      | Some (Inr st') \<Rightarrow> fields_loop call s depth maxDepth isMutation excludeFields rest st')"

text \<open>
  The body of the loop over \<open>t.PossibleTypes\<close>. A failed lookup is logged and the nil
  pointer is the receiver of the call all the same. The lines of the possible type that are
  names of the parent's leaf fields are left out.
\<close>

definition possible_step ::
  "(heap \<Rightarrow> addr option \<Rightarrow> (string \<times> heap) outcome) \<Rightarrow> Schema \<Rightarrow> string list \<Rightarrow> TypeRef
     \<Rightarrow> heap \<times> string list \<Rightarrow> (heap \<times> string list) outcome" where
  "possible_step call s parentFieldNames possibleType st =
     (case st of (h, lines) \<Rightarrow>
        (let possibleT = LookupTypeByName h s (TypeRef_Name possibleType);
             lines1 = lines @ [''... on '' @ TypeRef_Name possibleType @ '' {'',
                               tab # ''__typename'']
         in case call h possibleT of
              None \<Rightarrow> None
            | Some (Inl p) \<Rightarrow> Some (Inl p)
            | Some (Inr (possibleTContent, h')) \<Rightarrow>
                (let possibleTLines = Split possibleTContent newline in
                 Some (Inr (h',
                   lines1
                     @ map ((#) tab)
                         (filter (\<lambda>b. \<not> stringInStrings b parentFieldNames) possibleTLines)
                     @ [''}''])))))"

fun possible_loop ::
  "(heap \<Rightarrow> addr option \<Rightarrow> (string \<times> heap) outcome) \<Rightarrow> Schema \<Rightarrow> string list \<Rightarrow> TypeRef list
     \<Rightarrow> heap \<times> string list \<Rightarrow> (heap \<times> string list) outcome" where
  "possible_loop call s parentFieldNames [] st = Some (Inr st)"
| "possible_loop call s parentFieldNames (possibleType # rest) st =
     (case possible_step call s parentFieldNames possibleType st of
        None \<Rightarrow> None
      | Some (Inl p) \<Rightarrow> Some (Inl p)
      | Some (Inr st') \<Rightarrow> possible_loop call s parentFieldNames rest st')"

text \<open>
  \<open>sort.SliceStable\<close> by the field name writes the stably sorted fields into the struct
  behind the receiver; \<open>sort_key\<close> is the stable sort, and Go compares strings bytewise, as
  the lexicographic order on lists of characters does.
\<close>

definition sort_fields :: "Type \<Rightarrow> Type" where
  "sort_fields ty = ty\<lparr>Type_Fields := sort_key Field_Name (Type_Fields ty)\<rparr>"

text \<open>
  The method \<open>GetQueryStringFields\<close>. The first argument is the fuel, the second the store;
  the receiver \<open>t\<close> may be nil, and reading \<open>t.Fields\<close> then panics. The schema pointer
  \<open>s\<close> is not nil: the lookups are made on it.
\<close>

fun GetQueryStringFields ::
  "nat \<Rightarrow> heap \<Rightarrow> Schema \<Rightarrow> addr option \<Rightarrow> int \<Rightarrow> int \<Rightarrow> bool \<Rightarrow> string list
     \<Rightarrow> (string \<times> heap) outcome" where
  "GetQueryStringFields 0 h s t depth maxDepth isMutation excludeFields = None"
| "GetQueryStringFields (Suc n) h s None depth maxDepth isMutation excludeFields =
     Some (Inl NilPointerDereference)"
| "GetQueryStringFields (Suc n) h s (Some a) depth maxDepth isMutation excludeFields =
     (let depth' = inc_int depth;
          h1 = h(a := sort_fields (h a));
          call = (\<lambda>h' t'. GetQueryStringFields n h' s t' depth' maxDepth isMutation excludeFields)
      in case fields_loop call s depth' maxDepth isMutation excludeFields
                (Type_Fields (h1 a)) (h1, [], []) of
           None \<Rightarrow> None
         | Some (Inl p) \<Rightarrow> Some (Inl p)
         | Some (Inr (h2, lines, parentFieldNames)) \<Rightarrow>
             (case possible_loop call s parentFieldNames (Type_PossibleTypes (h2 a))
                     (h2, lines) of
                None \<Rightarrow> None
              | Some (Inl p) \<Rightarrow> Some (Inl p)
              | Some (Inr (h3, lines')) \<Rightarrow> Some (Inr (Join lines' [newline], h3))))"

section \<open>Notions used to state the properties\<close>

text \<open>
  The roots of an expansion: the types of the schema whose formatted name is the name of one
  of the given descriptors.
\<close>

definition matched_roots ::
  "(string \<Rightarrow> string) \<Rightarrow> heap \<Rightarrow> addr option list \<Rightarrow> TypeInfo list \<Rightarrow> addr set" where
  "matched_roots formatGoName h ps types =
     {a. Some a \<in> set ps \<and> typeNameInTypes (formatGoName (Type_Name (h a))) types}"

text \<open>
  The types one hop away through a list of fields: those found under the leaf name of a
  reference that has an \<open>OfType\<close>, that is, of a wrapped reference.
\<close>

definition wrapped_targets :: "heap \<Rightarrow> Schema \<Rightarrow> Field list \<Rightarrow> addr set" where
  "wrapped_targets h s fs =
     {b. \<exists>i r. i \<in> set fs \<and> TypeRef_OfType (Field_Type i) = Some r
            \<and> LookupTypeByName h s (GetTypeName r) = Some b}"

definition one_hop :: "heap \<Rightarrow> Schema \<Rightarrow> addr \<Rightarrow> addr set" where
  "one_hop h s a =
     wrapped_targets h s (Type_InputFields (h a)) \<union> wrapped_targets h s (Type_Fields (h a))"

text \<open>
  The store after a call, against the store before it: every struct is as it was, or as it
  was with its \<open>Fields\<close> stably sorted by name.
\<close>

definition fields_sorted_from :: "heap \<Rightarrow> heap \<Rightarrow> bool" where
  "fields_sorted_from h h' \<longleftrightarrow> (\<forall>a. h' a = h a \<or> h' a = sort_fields (h a))"

text \<open>
  The names of a GraphQL schema are not empty and are made of letters, digits and the
  underscore. What the properties of the output need of them is less: a name is not empty
  and has no newline, no tab and no brace. A schema has plain names when the names of all
  fields and of all possible types are such.
\<close>

definition plain_name :: "string \<Rightarrow> bool" where
  "plain_name n \<longleftrightarrow>
     n \<noteq> [] \<and> newline \<notin> set n \<and> tab \<notin> set n \<and> CHR ''{'' \<notin> set n \<and> CHR ''}'' \<notin> set n"

definition plain_names :: "heap \<Rightarrow> bool" where
  "plain_names h \<longleftrightarrow>
     (\<forall>a. list_all (\<lambda>f. plain_name (Field_Name f)) (Type_Fields (h a))
        \<and> list_all (\<lambda>p. plain_name (TypeRef_Name p)) (Type_PossibleTypes (h a)))"

text \<open>
  The lines of a selection text. A line opens a block when it ends with the opening brace.
  A line is hollow when, after its indentation, it is empty or is the closing brace: such a
  line is no content of a block. A text has no empty block when every line that opens a
  block is followed by a line, and that line is not hollow.
\<close>

definition opens_block :: "string \<Rightarrow> bool" where
  "opens_block l \<longleftrightarrow> l \<noteq> [] \<and> last l = CHR ''{''"

definition hollow :: "string \<Rightarrow> bool" where
  "hollow l \<longleftrightarrow>
     dropWhile (\<lambda>c. c = tab) l = [] \<or> dropWhile (\<lambda>c. c = tab) l = ''}''"

fun no_empty_block :: "string list \<Rightarrow> bool" where
  "no_empty_block [] \<longleftrightarrow> True"
| "no_empty_block [a] \<longleftrightarrow> \<not> opens_block a"
| "no_empty_block (a # b # ls) \<longleftrightarrow>
     \<not> (opens_block a \<and> hollow b) \<and> no_empty_block (b # ls)"

text \<open>
  The indentation of a line is the number of its leading tabs: the lines of a nested
  selection are indented by one tab more than the line that opens their block, so the
  indentation of a line is the number of blocks around it. A line opens the block of a
  field when it opens a block that is not an inline fragment.
\<close>

definition indent :: "string \<Rightarrow> nat" where
  "indent l = length (takeWhile (\<lambda>c. c = tab) l)"

definition opens_field :: "string \<Rightarrow> bool" where
  "opens_field l \<longleftrightarrow>
     opens_block l \<and> take 7 (dropWhile (\<lambda>c. c = tab) l) \<noteq> ''... on ''"

text \<open>
  Invariants of the two loops. A line is filled when it is indented and is not hollow; in a
  list of lines the blocks are filled when every line that opens a block is followed by a
  filled line. The lines of a call are in order when none holds a newline, their blocks are
  filled and the first of them is not hollow; a text is in order when the blocks of its
  lines are filled and, unless the text is empty, its first line is not hollow.
\<close>

definition filled :: "string \<Rightarrow> bool" where
  "filled b \<longleftrightarrow> b \<noteq> [] \<and> hd b = tab \<and> \<not> hollow (tl b)"

fun blocks_filled :: "string list \<Rightarrow> bool" where
  "blocks_filled [] \<longleftrightarrow> True"
| "blocks_filled (a # ls) \<longleftrightarrow>
     (opens_block a \<longrightarrow> ls \<noteq> [] \<and> filled (hd ls)) \<and> blocks_filled ls"

definition lines_ok :: "string list \<Rightarrow> bool" where
  "lines_ok ls \<longleftrightarrow>
     (\<forall>l\<in>set ls. newline \<notin> set l) \<and> blocks_filled ls \<and> (ls \<noteq> [] \<longrightarrow> \<not> hollow (hd ls))"

definition text_ok :: "string \<Rightarrow> bool" where
  "text_ok out \<longleftrightarrow>
     blocks_filled (Split out newline) \<and> (out \<noteq> [] \<longrightarrow> \<not> hollow (hd (Split out newline)))"

definition state_ok :: "heap \<times> string list \<times> string list \<Rightarrow> bool" where
  "state_ok st \<longleftrightarrow>
     (case st of (h, ls, ps) \<Rightarrow> plain_names h \<and> lines_ok ls \<and> list_all plain_name ps)"

definition depth_ok :: "int \<Rightarrow> int \<Rightarrow> string list \<Rightarrow> bool" where
  "depth_ok d m ls \<longleftrightarrow> (\<forall>l\<in>set ls. opens_field l \<longrightarrow> d + int (indent l) \<le> m)"

text \<open>
  The store without the fields that have a required argument: every struct keeps, in their
  order, the fields that have none.
\<close>

definition without_required :: "heap \<Rightarrow> heap" where
  "without_required h =
     (\<lambda>a. (h a)\<lparr>Type_Fields := filter (\<lambda>f. \<not> HasRequiredArg f) (Type_Fields (h a))\<rparr>)"

text \<open>The result of a call with the store it leaves replaced by the image of that store.\<close>

definition lift_call ::
  "(heap \<Rightarrow> heap) \<Rightarrow> (string \<times> heap) outcome \<Rightarrow> (string \<times> heap) outcome" where
  "lift_call w r = map_option (map_sum id (\<lambda>(out, h). (out, w h))) r"

definition lift_fields ::
  "(heap \<Rightarrow> heap) \<Rightarrow> (heap \<times> string list \<times> string list) outcome
     \<Rightarrow> (heap \<times> string list \<times> string list) outcome" where
  "lift_fields w r = map_option (map_sum id (\<lambda>(h, ls, ps). (w h, ls, ps))) r"

definition lift_possible ::
  "(heap \<Rightarrow> heap) \<Rightarrow> (heap \<times> string list) outcome \<Rightarrow> (heap \<times> string list) outcome" where
  "lift_possible w r = map_option (map_sum id (\<lambda>(h, ls). (w h, ls))) r"




section \<open>Example schemas\<close>

definition new_type :: "string \<Rightarrow> Kind \<Rightarrow> Field list \<Rightarrow> TypeRef list \<Rightarrow> Type" where
  "new_type n k fs ps =
     \<lparr>Type_Name = n, Type_Description = [], Type_Kind = k, Type_EnumValues = [],
      Type_Fields = fs, Type_InputFields = [], Type_Interfaces = [],
      Type_PossibleTypes = ps, Type_SkipFields = []\<rparr>"

definition new_field :: "string \<Rightarrow> TypeRef \<Rightarrow> Argument list \<Rightarrow> Field" where
  "new_field n r args =
     \<lparr>Field_Name = n, Field_Description = [], Field_Type = r, Field_Args = args\<rparr>"

definition named :: "Kind \<Rightarrow> string \<Rightarrow> TypeRef" where
  "named k n = TypeRef n k None"

definition non_null :: "TypeRef \<Rightarrow> TypeRef" where
  "non_null r = TypeRef [] KindNonNull (Some r)"

definition empty_heap :: heap where
  "empty_heap = (\<lambda>a. new_type [] KindObject [] [])"

text \<open>
  \<open>Query\<close> has the only field \<open>widget: Widget\<close> and \<open>Widget\<close> has the field
  \<open>part: Part\<close>, both references bare.
\<close>

definition widget_heap :: heap where
  "widget_heap = empty_heap
     (1 := new_type ''Query'' KindObject
             [new_field ''widget'' (named KindObject ''Widget'') []] [],
      2 := new_type ''Widget'' KindObject
             [new_field ''part'' (named KindObject ''Part'') []] [],
      3 := new_type ''Part'' KindObject [] [])"

text \<open>The same types with the references wrapped: \<open>widget: Widget!\<close> and \<open>part: Part!\<close>.\<close>

definition wrapped_widget_heap :: heap where
  "wrapped_widget_heap = empty_heap
     (1 := new_type ''Query'' KindObject
             [new_field ''widget'' (non_null (named KindObject ''Widget'')) []] [],
      2 := new_type ''Widget'' KindObject
             [new_field ''part'' (non_null (named KindObject ''Part'')) []] [],
      3 := new_type ''Part'' KindObject [] [])"

definition widget_schema :: Schema where
  "widget_schema = \<lparr>Schema_Types = [Some 1, Some 2, Some 3]\<rparr>"

text \<open>Two types \<open>A\<close> and \<open>B\<close>, where \<open>A\<close> has the field \<open>b: B!\<close>.\<close>

definition pair_heap :: heap where
  "pair_heap = empty_heap
     (1 := new_type ''A'' KindObject [new_field ''b'' (non_null (named KindObject ''B'')) []] [],
      2 := new_type ''B'' KindObject [] [])"

definition pair_schema :: Schema where
  "pair_schema = \<lparr>Schema_Types = [Some 1, Some 2]\<rparr>"

text \<open>
  The interface \<open>Animal\<close> with the fields \<open>name: String\<close> and \<open>age: Int\<close> and the
  possible types \<open>Dog\<close> and \<open>Cat\<close>; \<open>Dog\<close> adds \<open>breed: String\<close> and \<open>Cat\<close> adds
  \<open>indoor: Boolean\<close>.
\<close>

definition animal_heap :: heap where
  "animal_heap = empty_heap
     (1 := new_type ''Animal'' KindInterface
             [new_field ''name'' (named KindScalar ''String'') [],
              new_field ''age'' (named KindScalar ''Int'') []]
             [named KindObject ''Dog'', named KindObject ''Cat''],
      2 := new_type ''Dog'' KindObject
             [new_field ''name'' (named KindScalar ''String'') [],
              new_field ''age'' (named KindScalar ''Int'') [],
              new_field ''breed'' (named KindScalar ''String'') []] [],
      3 := new_type ''Cat'' KindObject
             [new_field ''name'' (named KindScalar ''String'') [],
              new_field ''age'' (named KindScalar ''Int'') [],
              new_field ''indoor'' (named KindScalar ''Boolean'') []] [])"

definition animal_schema :: Schema where
  "animal_schema = \<lparr>Schema_Types = [Some 1, Some 2, Some 3]\<rparr>"

text \<open>An interface \<open>Node\<close> whose possible type \<open>Ghost\<close> is not in the schema.\<close>

definition ghost_heap :: heap where
  "ghost_heap = empty_heap
     (1 := new_type ''Node'' KindInterface [] [named KindObject ''Ghost''])"

definition ghost_schema :: Schema where
  "ghost_schema = \<lparr>Schema_Types = [Some 1]\<rparr>"

text \<open>
  A shop: \<open>Shop\<close> has the fields \<open>name: String\<close>, \<open>item: Item\<close> and
  \<open>vault: Vault\<close>; \<open>Item\<close> has \<open>maker: Maker\<close> and \<open>id: ID\<close>; \<open>Maker\<close> has
  \<open>name: String\<close>; \<open>Vault\<close> has no field.
\<close>

definition shop_heap :: heap where
  "shop_heap = empty_heap
     (1 := new_type ''Shop'' KindObject
             [new_field ''name'' (named KindScalar ''String'') [],
              new_field ''item'' (named KindObject ''Item'') [],
              new_field ''vault'' (named KindObject ''Vault'') []] [],
      2 := new_type ''Item'' KindObject
             [new_field ''maker'' (named KindObject ''Maker'') [],
              new_field ''id'' (named KindScalar ''ID'') []] [],
      3 := new_type ''Maker'' KindObject
             [new_field ''name'' (named KindScalar ''String'') []] [],
      4 := new_type ''Vault'' KindObject [] [])"

definition shop_schema :: Schema where
  "shop_schema = \<lparr>Schema_Types = [Some 1, Some 2, Some 3, Some 4]\<rparr>"

text \<open>
  \<open>Desk\<close> has the fields \<open>open(code: Int!): String\<close>, whose argument is required, and
  \<open>label: String\<close>.
\<close>

definition desk_heap :: heap where
  "desk_heap = empty_heap
     (1 := new_type ''Desk'' KindObject
             [new_field ''open'' (named KindScalar ''String'')
                [\<lparr>Argument_Name = ''code'',
                  Argument_Type = non_null (named KindScalar ''Int''),
                  Argument_DefaultValue = None\<rparr>],
              new_field ''label'' (named KindScalar ''String'') []] [])"

definition desk_schema :: Schema where
  "desk_schema = \<lparr>Schema_Types = [Some 1]\<rparr>"







lemmas example_defs = new_type_def new_field_def named_def non_null_def empty_heap_def

lemmas synthesis_defs = sort_fields_def field_step_def possible_step_def LookupTypeByName_def
  stringInStrings_def HasRequiredArg_def IsRequired_def newline_def tab_def

section \<open>Properties of the expansion\<close>

lemma set_collect_nested:
  "set (collect_nested h s fs acc) = set acc \<union> wrapped_targets h s fs"
proof (induction fs arbitrary: acc)
  case Nil
  show ?case by (simp add: wrapped_targets_def)
next
  case (Cons i fs)
  have split: "wrapped_targets h s (i # fs) =
      (case TypeRef_OfType (Field_Type i) of None \<Rightarrow> {}
       | Some r \<Rightarrow> (case LookupTypeByName h s (GetTypeName r) of None \<Rightarrow> {} | Some b \<Rightarrow> {b}))
      \<union> wrapped_targets h s fs"
    by (auto simp: wrapped_targets_def split: option.splits)
  show ?case
    by (auto simp: Cons.IH split split: option.splits)
qed

lemma ExpandType_one_hop:
  "ExpandType h (Some s) (Some a) = Inr fts \<Longrightarrow> set fts = one_hop h s a"
  by (auto simp: ExpandType_def one_hop_def set_collect_nested)

lemma hasType_iff:
  "hasType h f acc \<longleftrightarrow> Type_Name (h f) \<in> (\<lambda>a. Type_Name (h a)) ` set acc"
  by (induction acc) auto

lemma append_unique_mem: "x \<in> set acc \<Longrightarrow> x \<in> set (append_unique h fs acc)"
  by (induction fs arbitrary: acc) auto

lemma append_unique_lower: "set acc \<subseteq> set (append_unique h fs acc)"
  by (auto intro: append_unique_mem)

lemma append_unique_from: "x \<in> set (append_unique h fs acc) \<Longrightarrow> x \<in> set acc \<or> x \<in> set fs"
  by (induction fs arbitrary: acc) (fastforce split: if_splits)+

lemma append_unique_upper: "set (append_unique h fs acc) \<subseteq> set acc \<union> set fs"
  by (auto dest: append_unique_from)

lemma append_unique_names:
  "(\<lambda>a. Type_Name (h a)) ` set (append_unique h fs acc) = (\<lambda>a. Type_Name (h a)) ` (set acc \<union> set fs)"
  by (induction fs arbitrary: acc) (auto simp: hasType_iff split: if_splits)

lemma matched_roots_Nil: "matched_roots fmt h [] types = {}"
  by (simp add: matched_roots_def)

lemma matched_roots_None: "matched_roots fmt h (None # ps) types = matched_roots fmt h ps types"
  by (auto simp: matched_roots_def)

lemma matched_roots_Some:
  "matched_roots fmt h (Some a # ps) types =
     (if typeNameInTypes (fmt (Type_Name (h a))) types then {a} else {}) \<union> matched_roots fmt h ps types"
  by (auto simp: matched_roots_def)

lemma expand_loop_sets:
  "expand_loop fmt h s types ps acc = Inr out \<Longrightarrow>
     set acc \<union> matched_roots fmt h ps types \<subseteq> set out
   \<and> set out \<subseteq> set acc \<union> matched_roots fmt h ps types \<union> (\<Union>a\<in>matched_roots fmt h ps types. one_hop h s a)
   \<and> (\<lambda>a. Type_Name (h a)) ` set out =
       (\<lambda>a. Type_Name (h a)) ` (set acc \<union> matched_roots fmt h ps types \<union> (\<Union>a\<in>matched_roots fmt h ps types. one_hop h s a))"
proof (induction fmt h s types ps acc arbitrary: out rule: expand_loop.induct)
  case (1 fmt h s types acc)
  then show ?case by (auto simp: matched_roots_Nil)
next
  case (2 fmt h s types rest acc)
  then show ?case by (simp add: matched_roots_None)
next
  case (3 fmt h s types a rest acc)
  show ?case
  proof (cases "typeNameInTypes (fmt (Type_Name (h a))) types")
    case False
    with 3 show ?thesis by (simp add: matched_roots_Some)
  next
    case True
    obtain fts where fts: "ExpandType h (Some s) (Some a) = Inr fts"
      by (simp add: ExpandType_def)
    let ?acc = "append_unique h fts (acc @ [a])"
    from 3(3) True fts have run: "expand_loop fmt h s types rest ?acc = Inr out" by simp
    note IH = "3.IH"(1)[OF True fts run]
    have hop: "set fts = one_hop h s a" using fts by (rule ExpandType_one_hop)
    have lo: "set (acc @ [a]) \<subseteq> set ?acc" by (rule append_unique_lower)
    have up: "set ?acc \<subseteq> set (acc @ [a]) \<union> set fts" by (rule append_unique_upper)
    have nm: "(\<lambda>a. Type_Name (h a)) ` set ?acc = (\<lambda>a. Type_Name (h a)) ` (set (acc @ [a]) \<union> set fts)"
      by (rule append_unique_names)
    have M: "matched_roots fmt h (Some a # rest) types = insert a (matched_roots fmt h rest types)"
      using True by (simp add: matched_roots_Some)
    have c1: "set acc \<union> matched_roots fmt h (Some a # rest) types \<subseteq> set out"
      using IH lo unfolding M by auto
    have c2: "set out \<subseteq> set acc \<union> matched_roots fmt h (Some a # rest) types
          \<union> (\<Union>a\<in>matched_roots fmt h (Some a # rest) types. one_hop h s a)"
      using IH up unfolding M hop by auto
    have c3: "(\<lambda>a. Type_Name (h a)) ` set out =
       (\<lambda>a. Type_Name (h a)) ` (set acc \<union> matched_roots fmt h (Some a # rest) types
          \<union> (\<Union>a\<in>matched_roots fmt h (Some a # rest) types. one_hop h s a))"
    proof -
      have "(\<lambda>a. Type_Name (h a)) ` set out =
        (\<lambda>a. Type_Name (h a)) ` set ?acc \<union> (\<lambda>a. Type_Name (h a)) ` (matched_roots fmt h rest types
           \<union> (\<Union>a\<in>matched_roots fmt h rest types. one_hop h s a))"
        using IH by (simp add: image_Un Un_assoc)
      also have "\<dots> = (\<lambda>a. Type_Name (h a)) ` (set (acc @ [a]) \<union> set fts) \<union> (\<lambda>a. Type_Name (h a)) ` (matched_roots fmt h rest types
           \<union> (\<Union>a\<in>matched_roots fmt h rest types. one_hop h s a))"
        by (simp only: nm)
      also have "\<dots> = (\<lambda>a. Type_Name (h a)) ` (set acc \<union> matched_roots fmt h (Some a # rest) types
          \<union> (\<Union>a\<in>matched_roots fmt h (Some a # rest) types. one_hop h s a))"
        unfolding M hop image_Un[symmetric] by (rule arg_cong[where f="\<lambda>S. (\<lambda>a. Type_Name (h a)) ` S"]) auto
      finally show ?thesis .
    qed
    from c1 c2 c3 show ?thesis by blast
  qed
qed

lemma expand_loop_no_panic:
  "expand_loop fmt h s types ps acc \<noteq> Inl p"
  by (induction fmt h s types ps acc rule: expand_loop.induct)
     (auto simp: ExpandType_def)

text \<open>
  What \<open>ExpandTypes\<close> returns on a schema: every root (a type of the schema whose
  formatted name is among the given descriptors), and besides the roots only types found
  through an \<open>OfType\<close> of a field or an input field of a root; by name, all of these.
\<close>

lemma ExpandTypes_roots_and_hops:
  assumes "ExpandTypes formatGoName h (Some s) types = Inr (Inr out)"
  shows "matched_roots formatGoName h (Schema_Types s) types \<subseteq> set out
    \<and> set out \<subseteq> matched_roots formatGoName h (Schema_Types s) types
          \<union> (\<Union>a\<in>matched_roots formatGoName h (Schema_Types s) types. one_hop h s a)
    \<and> (\<lambda>a. Type_Name (h a)) ` set out =
        (\<lambda>a. Type_Name (h a)) ` (matched_roots formatGoName h (Schema_Types s) types
          \<union> (\<Union>a\<in>matched_roots formatGoName h (Schema_Types s) types. one_hop h s a))"
proof -
  from assms have "expand_loop formatGoName h s types (Schema_Types s) [] = Inr out"
    by (simp add: ExpandTypes_def split: sum.splits)
  from expand_loop_sets[OF this] show ?thesis by simp
qed

text \<open>
  With the references wrapped (\<open>widget: Widget!\<close>), \<open>Widget\<close> is found and
  \<open>Part\<close>, two hops away, is not.
\<close>

lemma ExpandTypes_wrapped_widget:
  "ExpandTypes (\<lambda>n. n) wrapped_widget_heap (Some widget_schema) [\<lparr>TypeInfo_Name = ''Query''\<rparr>]
     = Inr (Inr [1, 2])"
  by (simp add: ExpandTypes_def ExpandType_def LookupTypeByName_def wrapped_widget_heap_def
      widget_schema_def example_defs)

text \<open>
  C1 at a failing input. In the schema of the claim, \<open>Query\<close> has the only field
  \<open>widget: Widget\<close>, \<open>Widget\<close> has the field \<open>part: Part\<close>, and \<open>Query\<close> is the
  only root. The claim, like the comments of \<open>ExpandType\<close> (\<open>determine the Type for all
  nested fields\<close>) and of \<open>ExpandTypes\<close> (\<open>include all the nested types from the
  fields\<close>), has \<open>Widget\<close> in the output. The code returns \<open>Query\<close> alone: the test
  \<open>i.Type.OfType != nil\<close> lets only a wrapped reference through and the lookup is made
  under the name of \<open>OfType\<close>, so the bare reference of \<open>widget\<close> is never looked up,
  although its type name resolves in the schema. \<open>GetQueryStringFields\<close> resolves the
  same kind of reference under \<open>field.Type.GetTypeName()\<close>.
\<close>

theorem expansion_bare_reference_not_followed:
  "ExpandTypes (\<lambda>n. n) widget_heap (Some widget_schema) [\<lparr>TypeInfo_Name = ''Query''\<rparr>]
     = Inr (Inr [1])
   \<and> ''Widget'' \<notin> set (map (\<lambda>a. Type_Name (widget_heap a)) [1])
   \<and> map (\<lambda>i. LookupTypeByName widget_heap widget_schema (GetTypeName (Field_Type i)))
         (Type_Fields (widget_heap 1)) = [Some 2]
   \<and> Type_Name (widget_heap 2) = ''Widget''"
  by (simp add: ExpandTypes_def ExpandType_def LookupTypeByName_def widget_heap_def
      widget_schema_def example_defs)

text \<open>
  C5 at a failing input. In the schema of \<open>A\<close> (with the field \<open>b: B!\<close>) and \<open>B\<close>, with
  both as roots, \<open>B\<close> is appended as a hop from \<open>A\<close> and appended again as a root: the
  root is appended without asking \<open>hasType\<close>. The output names \<open>B\<close> twice.
\<close>

theorem expansion_duplicate_root:
  "ExpandTypes (\<lambda>n. n) pair_heap (Some pair_schema)
     [\<lparr>TypeInfo_Name = ''A''\<rparr>, \<lparr>TypeInfo_Name = ''B''\<rparr>] = Inr (Inr [1, 2, 2])
   \<and> map (\<lambda>a. Type_Name (pair_heap a)) [1, 2, 2] = [''A'', ''B'', ''B'']"
  by (simp add: ExpandTypes_def ExpandType_def LookupTypeByName_def pair_heap_def
      pair_schema_def example_defs)

text \<open>
  C9. \<open>ExpandType\<close> returns an error iff the schema or the type is nil, \<open>ExpandTypes\<close>
  returns an error iff the schema is nil, and \<open>ExpandTypes\<close> never panics: a reference that
  does not resolve is skipped.
\<close>

theorem expand_error_iff_nil:
  "((\<exists>e. ExpandType h s t = Inl e) \<longleftrightarrow> s = None \<or> t = None)
   \<and> ((\<exists>e. ExpandTypes formatGoName h s types = Inr (Inl e)) \<longleftrightarrow> s = None)
   \<and> (\<forall>p. ExpandTypes formatGoName h s types \<noteq> Inl p)"
  by (auto simp: ExpandType_def ExpandTypes_def expand_loop_no_panic
      split: option.splits sum.splits)

section \<open>Properties of the synthesis\<close>

subsection \<open>The store after a call\<close>

lemma sort_fields_idem: "sort_fields (sort_fields ty) = sort_fields ty"
  by (simp add: sort_fields_def sort_key_id_if_sorted)

lemma fields_sorted_from_refl: "fields_sorted_from h h"
  by (simp add: fields_sorted_from_def)

lemma fields_sorted_from_trans:
  "fields_sorted_from h h' \<Longrightarrow> fields_sorted_from h' h'' \<Longrightarrow> fields_sorted_from h h''"
  unfolding fields_sorted_from_def by (metis sort_fields_idem)

lemma fields_sorted_from_upd: "fields_sorted_from h (h(a := sort_fields (h a)))"
  by (simp add: fields_sorted_from_def)

lemma field_step_heap:
  assumes call: "\<And>h t out h'. call h t = Some (Inr (out, h')) \<Longrightarrow> fields_sorted_from h h'"
    and step: "field_step call s d m mut ex f (h, ls, ps) = Some (Inr (h', ls', ps'))"
  shows "fields_sorted_from h h'"
  using step
  by (auto simp: field_step_def Let_def fields_sorted_from_refl
      split: if_splits option.splits sum.splits prod.splits dest: call)

lemma fields_loop_heap:
  assumes call: "\<And>h t out h'. call h t = Some (Inr (out, h')) \<Longrightarrow> fields_sorted_from h h'"
  shows "fields_loop call s d m mut ex fs (h, ls, ps) = Some (Inr (h', ls', ps'))
    \<Longrightarrow> fields_sorted_from h h'"
proof (induction fs arbitrary: h ls ps)
  case Nil
  then show ?case by (simp add: fields_sorted_from_refl)
next
  case (Cons f fs)
  from Cons.prems obtain h1 ls1 ps1 where
    s1: "field_step call s d m mut ex f (h, ls, ps) = Some (Inr (h1, ls1, ps1))"
    and r1: "fields_loop call s d m mut ex fs (h1, ls1, ps1) = Some (Inr (h', ls', ps'))"
    by (auto split: option.splits sum.splits)
  from field_step_heap[OF call s1] Cons.IH[OF r1] show ?case
    by (rule fields_sorted_from_trans)
qed

lemma possible_step_heap:
  assumes call: "\<And>h t out h'. call h t = Some (Inr (out, h')) \<Longrightarrow> fields_sorted_from h h'"
    and step: "possible_step call s ps p (h, ls) = Some (Inr (h', ls'))"
  shows "fields_sorted_from h h'"
  using step
  by (auto simp: possible_step_def Let_def split: option.splits sum.splits prod.splits dest: call)

lemma possible_loop_heap:
  assumes call: "\<And>h t out h'. call h t = Some (Inr (out, h')) \<Longrightarrow> fields_sorted_from h h'"
  shows "possible_loop call s ps pts (h, ls) = Some (Inr (h', ls'))
    \<Longrightarrow> fields_sorted_from h h'"
proof (induction pts arbitrary: h ls)
  case Nil
  then show ?case by (simp add: fields_sorted_from_refl)
next
  case (Cons p pts)
  from Cons.prems obtain h1 ls1 where
    s1: "possible_step call s ps p (h, ls) = Some (Inr (h1, ls1))"
    and r1: "possible_loop call s ps pts (h1, ls1) = Some (Inr (h', ls'))"
    by (auto split: option.splits sum.splits)
  from possible_step_heap[OF call s1] Cons.IH[OF r1] show ?case
    by (rule fields_sorted_from_trans)
qed

lemma GetQueryStringFields_Some_elim:
  assumes "GetQueryStringFields fuel h s t depth maxDepth mut ex = Some (Inr (out, h'))"
  obtains n a h2 lines parents lines' where
    "fuel = Suc n" "t = Some a"
    "fields_loop (\<lambda>h' t'. GetQueryStringFields n h' s t' (inc_int depth) maxDepth mut ex)
        s (inc_int depth) maxDepth mut ex
        (sort_key Field_Name (Type_Fields (h a))) (h(a := sort_fields (h a)), [], [])
      = Some (Inr (h2, lines, parents))"
    "possible_loop (\<lambda>h' t'. GetQueryStringFields n h' s t' (inc_int depth) maxDepth mut ex)
        s parents (Type_PossibleTypes (h2 a)) (h2, lines) = Some (Inr (h', lines'))"
    "out = Join lines' [newline]"
proof (cases fuel)
  case 0
  with assms show ?thesis by simp
next
  case (Suc n)
  show ?thesis
  proof (cases t)
    case None
    with assms Suc show ?thesis by simp
  next
    case (Some a)
    from assms show ?thesis
      unfolding Suc Some
      by (auto simp: Let_def sort_fields_def split: option.splits sum.splits prod.splits intro!: that[OF Suc Some])
  qed
qed

lemma GetQueryStringFields_heap:
  "GetQueryStringFields fuel h s t depth maxDepth mut ex = Some (Inr (out, h'))
    \<Longrightarrow> fields_sorted_from h h'"
proof (induction fuel arbitrary: h t depth out h')
  case 0
  then show ?case by simp
next
  case (Suc n)
  from Suc.prems show ?case
  proof (cases rule: GetQueryStringFields_Some_elim)
    case (1 n' a h2 lines parents lines')
    then have n: "n' = n" by simp
    have call: "\<And>h t out h'. GetQueryStringFields n h s t (inc_int depth) maxDepth mut ex = Some (Inr (out, h'))
        \<Longrightarrow> fields_sorted_from h h'"
      by (rule Suc.IH)
    from fields_loop_heap[where call="\<lambda>h' t'. GetQueryStringFields n h' s t' (inc_int depth) maxDepth mut ex", OF call 1(3)[unfolded n]]
    have a: "fields_sorted_from (h(a := sort_fields (h a))) h2" .
    from possible_loop_heap[where call="\<lambda>h' t'. GetQueryStringFields n h' s t' (inc_int depth) maxDepth mut ex", OF call 1(4)[unfolded n]]
    have b: "fields_sorted_from h2 h'" .
    from fields_sorted_from_upd a b show ?thesis
      by (blast intro: fields_sorted_from_trans)
  qed
qed

subsection \<open>Lines and blocks\<close>

lemma Split_not_Nil: "Split x sep \<noteq> []"
  by (induction x) (auto split: list.splits)

lemma Split_no_sep: "sep \<notin> set a \<Longrightarrow> Split a sep = [a]"
  by (induction a) auto

lemma Split_append_sep: "sep \<notin> set a \<Longrightarrow> Split (a @ sep # rest) sep = a # Split rest sep"
  by (induction a) auto

lemma Split_Join:
  "ls \<noteq> [] \<Longrightarrow> \<forall>l\<in>set ls. sep \<notin> set l \<Longrightarrow> Split (Join ls [sep]) sep = ls"
proof (induction ls "[sep]" rule: Join.induct)
  case 1
  then show ?case by simp
next
  case (2 a)
  then show ?case by (simp add: Split_no_sep)
next
  case (3 a b rest)
  then show ?case by (simp add: Split_append_sep)
qed

lemma Split_lines: "l \<in> set (Split x sep) \<Longrightarrow> sep \<notin> set l"
proof (induction x arbitrary: l)
  case Nil
  then show ?case by simp
next
  case (Cons c cs)
  show ?case
  proof (cases "c = sep")
    case True
    with Cons show ?thesis by auto
  next
    case False
    obtain k ks where ks: "Split cs sep = k # ks"
      using Split_not_Nil[of cs sep] by (cases "Split cs sep") auto
    from Cons.prems False ks have "l = c # k \<or> l \<in> set ks" by simp
    with Cons.IH[of k] Cons.IH[of l] ks False show ?thesis by auto
  qed
qed

lemma hollow_tab [simp]: "hollow (tab # b) = hollow b"
  by (simp add: hollow_def)

lemma opens_tab [simp]: "opens_block (tab # b) = opens_block b"
  by (auto simp: opens_block_def tab_def)

lemma filled_tab [simp]: "filled (tab # b) = (\<not> hollow b)"
  by (simp add: filled_def)

lemma plain_not_opens: "plain_name n \<Longrightarrow> \<not> opens_block n"
  by (metis last_in_set plain_name_def opens_block_def)

lemma plain_no_tab_dropWhile: "tab \<notin> set n \<Longrightarrow> dropWhile (\<lambda>c. c = tab) n = n"
  by (cases n) auto

lemma plain_not_hollow: "plain_name n \<Longrightarrow> \<not> hollow n"
  by (auto simp: plain_name_def hollow_def plain_no_tab_dropWhile)

lemma plain_not_tabbed: "plain_name n \<Longrightarrow> n = [] \<or> hd n \<noteq> tab"
  by (cases n) (auto simp: plain_name_def)

lemma plain_no_newline: "plain_name n \<Longrightarrow> newline \<notin> set n"
  by (simp add: plain_name_def)

lemma opener_not_hollow: "plain_name n \<Longrightarrow> \<not> hollow (n @ '' {'')"
proof -
  assume "plain_name n"
  then have "tab \<notin> set (n @ '' {'')"
    by (simp add: plain_name_def tab_def)
  then have "dropWhile (\<lambda>c. c = tab) (n @ '' {'') = n @ '' {''"
    by (rule plain_no_tab_dropWhile)
  then show ?thesis
    by (simp add: hollow_def)
qed

lemma fragment_not_hollow: "\<not> hollow (''... on '' @ p @ '' {'')"
  by (simp add: hollow_def tab_def)

lemma close_not_opens: "\<not> opens_block ''}''"
  by (simp add: opens_block_def)

lemma typename_line:
  "\<not> opens_block ''__typename''" "\<not> hollow ''__typename''" "newline \<notin> set ''__typename''"
  by (simp_all add: opens_block_def hollow_def tab_def newline_def)

lemma empty_not_opens: "\<not> opens_block []"
  by (simp add: opens_block_def)

lemma blocks_filled_append:
  "blocks_filled xs \<Longrightarrow> blocks_filled ys \<Longrightarrow> blocks_filled (xs @ ys)"
  by (induction xs) (auto simp: neq_Nil_conv)

lemma filled_not_hollow: "filled b \<Longrightarrow> \<not> hollow b"
  by (cases b) (auto simp: filled_def)

lemma blocks_filled_map_tab:
  "blocks_filled ls \<Longrightarrow> blocks_filled (map ((#) tab) ls)"
proof (induction ls)
  case Nil
  then show ?case by simp
next
  case (Cons a ls)
  then show ?case
    by (cases ls) (auto dest: filled_not_hollow)
qed

lemma blocks_filled_filter:
  assumes keep: "\<And>l. l \<noteq> [] \<Longrightarrow> hd l = tab \<Longrightarrow> P l"
  shows "blocks_filled ls \<Longrightarrow> blocks_filled (filter P ls)"
proof (induction ls)
  case Nil
  then show ?case by simp
next
  case (Cons a ls)
  show ?case
  proof (cases "P a \<and> opens_block a")
    case True
    with Cons.prems obtain b ls' where ls: "ls = b # ls'" and b: "filled b"
      by (cases ls) auto
    from b have "P b" by (auto simp: filled_def intro: keep)
    with Cons True ls b show ?thesis by simp
  next
    case False
    with Cons show ?thesis by auto
  qed
qed

lemma blocks_filled_no_empty: "blocks_filled ls \<Longrightarrow> no_empty_block ls"
proof (induction ls rule: no_empty_block.induct)
  case 1
  show ?case by simp
next
  case (2 a)
  then show ?case by simp
next
  case (3 a b ls)
  then show ?case by (auto dest: filled_not_hollow)
qed

lemma lines_ok_Nil: "lines_ok []"
  by (simp add: lines_ok_def)

lemma lines_ok_append: "lines_ok xs \<Longrightarrow> lines_ok ys \<Longrightarrow> lines_ok (xs @ ys)"
  by (cases xs) (auto simp: lines_ok_def blocks_filled_append)

lemma lines_ok_leaf: "plain_name n \<Longrightarrow> lines_ok [n]"
  by (simp add: lines_ok_def plain_not_opens plain_not_hollow plain_no_newline)

lemma text_ok_Join:
  assumes "lines_ok ls"
  shows "text_ok (Join ls [newline])"
proof (cases "ls = []")
  case True
  then show ?thesis by (simp add: text_ok_def empty_not_opens)
next
  case False
  with assms have "Split (Join ls [newline]) newline = ls"
    by (simp add: Split_Join lines_ok_def)
  with assms False show ?thesis by (simp add: text_ok_def lines_ok_def)
qed

lemma lines_ok_block:
  assumes n: "plain_name n" and sub: "text_ok content" "content \<noteq> []"
    and opt: "opt = [] \<or> opt = [tab # ''__typename'']"
  shows "lines_ok ([n @ '' {''] @ opt @ map ((#) tab) (Split content newline) @ [''}''])"
proof -
  obtain b sub' where s: "Split content newline = b # sub'"
    using Split_not_Nil[of content newline] by (cases "Split content newline") auto
  from sub s have b: "\<not> hollow b" and bf: "blocks_filled (Split content newline)"
    by (simp_all add: text_ok_def)
  have tl: "blocks_filled (opt @ map ((#) tab) (Split content newline) @ [''}''])"
    using opt bf
    by (intro blocks_filled_append blocks_filled_map_tab)
       (auto simp: typename_line close_not_opens)
  have first: "filled (hd (opt @ map ((#) tab) (Split content newline) @ [''}'']))"
    using opt b by (auto simp: s typename_line)
  have "\<forall>l\<in>set (Split content newline). newline \<notin> set l"
    by (simp add: Split_lines)
  then have nl: "\<forall>l\<in>set ([n @ '' {''] @ opt @ map ((#) tab) (Split content newline) @ [''}'']).
      newline \<notin> set l"
    using opt n by (auto simp: plain_name_def newline_def tab_def)
  from tl first nl n show ?thesis
    by (simp add: lines_ok_def opener_not_hollow)
qed

lemma lines_ok_fragment:
  assumes sub: "text_ok content"
    and keep: "\<And>l. l \<noteq> [] \<Longrightarrow> hd l = tab \<Longrightarrow> P l"
    and p: "newline \<notin> set p"
  shows "lines_ok ([''... on '' @ p @ '' {'', tab # ''__typename'']
            @ map ((#) tab) (filter P (Split content newline)) @ [''}''])"
proof -
  have tl: "blocks_filled ([tab # ''__typename'']
      @ map ((#) tab) (filter P (Split content newline)) @ [''}''])"
    using sub
    by (intro blocks_filled_append blocks_filled_map_tab blocks_filled_filter)
       (auto simp: text_ok_def typename_line close_not_opens intro: keep)
  have "\<forall>l\<in>set (Split content newline). newline \<notin> set l"
    by (simp add: Split_lines)
  then have nl: "\<forall>l\<in>set ([''... on '' @ p @ '' {'', tab # ''__typename'']
            @ map ((#) tab) (filter P (Split content newline)) @ [''}'']). newline \<notin> set l"
    using p by (auto simp: newline_def tab_def)
  from tl nl show ?thesis
    using fragment_not_hollow[of p] by (simp add: lines_ok_def typename_line)
qed
subsection \<open>The cases of the loop bodies\<close>

lemma field_step_cases:
  assumes "field_step call s d m mut ex f (h, ls, ps) = Some (Inr (h', ls', ps'))"
  obtains
    (skip) "h' = h" "ls' = ls" "ps' = ps"
  | (leaf) "last (GetKinds (Field_Type f)) \<noteq> KindObject"
      "last (GetKinds (Field_Type f)) \<noteq> KindInterface"
      "h' = h" "ls' = ls @ [Field_Name f]" "ps' = ps @ [Field_Name f]"
  | (empty) b where "LookupTypeByName h s (GetTypeName (Field_Type f)) = Some b"
      "call h (Some b) = Some (Inr ([], h'))" "ls' = ls" "ps' = ps"
  | (block) b content opt where "d \<le> m"
      "mut \<or> \<not> HasRequiredArg f" "\<not> stringInStrings (Field_Name f) ex"
      "LookupTypeByName h s (GetTypeName (Field_Type f)) = Some b"
      "call h (Some b) = Some (Inr (content, h'))" "content \<noteq> []"
      "opt = [] \<or> opt = [tab # ''__typename'']"
      "ls' = ls @ [Field_Name f @ '' {''] @ opt @ map ((#) tab) (Split content newline) @ [''}'']"
      "ps' = ps"
proof -
  consider (a) "\<not> mut \<and> HasRequiredArg f" | (b) "\<not> (\<not> mut \<and> HasRequiredArg f)" "stringInStrings (Field_Name f) ex"
    | (c) "\<not> (\<not> mut \<and> HasRequiredArg f)" "\<not> stringInStrings (Field_Name f) ex"
    by blast
  then show ?thesis
  proof cases
    case a
    with assms show ?thesis by (intro skip) (simp_all add: field_step_def)
  next
    case b
    with assms show ?thesis by (intro skip) (simp_all add: field_step_def)
  next
    case c
    let ?k = "last (GetKinds (Field_Type f))"
    have kn: "GetKinds (Field_Type f) \<noteq> []"
      by (cases "Field_Type f" rule: GetKinds.cases) auto
    show ?thesis
    proof (cases "?k = KindObject \<or> ?k = KindInterface")
      case False
      with assms c kn show ?thesis
        by (intro leaf) (simp_all add: field_step_def)
    next
      case obj: True
      show ?thesis
      proof (cases "d > m")
        case True
        with assms c kn obj show ?thesis
          by (intro skip) (simp_all add: field_step_def)
      next
        case dm: False
        show ?thesis
        proof (cases "LookupTypeByName h s (GetTypeName (Field_Type f))")
          case None
          with assms c kn obj dm show ?thesis
            by (intro skip) (simp_all add: field_step_def)
        next
          case (Some b)
          from assms c kn obj dm Some obtain content where
            r: "call h (Some b) = Some (Inr (content, h'))"
            by (auto simp: field_step_def Let_def split: option.splits sum.splits prod.splits if_splits)
          show ?thesis
          proof (cases "content = []")
            case True
            with assms c kn obj dm Some r show ?thesis
              by (intro empty[of b]) (simp_all add: field_step_def)
          next
            case False
            let ?opt = "if ?k = KindInterface then [tab # ''__typename''] else []"
            from assms c kn obj dm Some r False
            have "ls' = ls @ [Field_Name f @ '' {''] @ ?opt @ map ((#) tab) (Split content newline) @ [''}'']"
              and "ps' = ps"
              by (simp_all add: field_step_def Let_def Split_not_Nil)
            with c dm Some r False show ?thesis
              by (intro block[of b content ?opt]) auto
          qed
        qed
      qed
    qed
  qed
qed

lemma possible_step_cases:
  assumes "possible_step call s ps p (h, ls) = Some (Inr (h', ls'))"
  obtains content where
    "call h (LookupTypeByName h s (TypeRef_Name p)) = Some (Inr (content, h'))"
    "ls' = ls @ [''... on '' @ TypeRef_Name p @ '' {'', tab # ''__typename'']
       @ map ((#) tab) (filter (\<lambda>b. \<not> stringInStrings b ps) (Split content newline)) @ [''}'']"
  using assms
  by (auto simp: possible_step_def Let_def split: option.splits sum.splits prod.splits)

subsection \<open>The output has no empty block\<close>

lemma plain_names_sorted_from:
  assumes "fields_sorted_from h h'" "plain_names h"
  shows "plain_names h'"
  unfolding plain_names_def
proof
  fix a
  from assms(1) have "h' a = h a \<or> h' a = sort_fields (h a)"
    by (simp add: fields_sorted_from_def)
  moreover from assms(2) have "list_all (\<lambda>f. plain_name (Field_Name f)) (Type_Fields (h a))
        \<and> list_all (\<lambda>p. plain_name (TypeRef_Name p)) (Type_PossibleTypes (h a))"
    by (simp add: plain_names_def)
  ultimately show "list_all (\<lambda>f. plain_name (Field_Name f)) (Type_Fields (h' a))
        \<and> list_all (\<lambda>p. plain_name (TypeRef_Name p)) (Type_PossibleTypes (h' a))"
    by (auto simp: sort_fields_def list_all_iff)
qed

lemma field_step_lines:
  assumes call: "\<And>h t out h'. plain_names h \<Longrightarrow> call h t = Some (Inr (out, h'))
            \<Longrightarrow> plain_names h' \<and> text_ok out"
    and f: "plain_name (Field_Name f)"
    and st: "state_ok (h, ls, ps)"
    and step: "field_step call s d m mut ex f (h, ls, ps) = Some (Inr (h', ls', ps'))"
  shows "state_ok (h', ls', ps')"
proof -
  from st have h: "plain_names h" and ls: "lines_ok ls" and ps: "list_all plain_name ps"
    by (simp_all add: state_ok_def)
  from step show ?thesis
  proof (cases rule: field_step_cases)
    case skip
    with st show ?thesis by simp
  next
    case leaf
    have "lines_ok (ls @ [Field_Name f])"
      using ls f by (intro lines_ok_append lines_ok_leaf)
    with leaf h ps f show ?thesis by (simp add: state_ok_def)
  next
    case (empty b)
    with call[OF h empty(2)] ls ps show ?thesis by (simp add: state_ok_def)
  next
    case (block b content opt)
    from call[OF h block(5)] have h': "plain_names h'" and ok: "text_ok content" by simp_all
    have "lines_ok (ls @ [Field_Name f @ '' {''] @ opt
        @ map ((#) tab) (Split content newline) @ [''}''])"
      using ls f ok block(6,7) by (intro lines_ok_append lines_ok_block)
    with block(8,9) h' ps show ?thesis by (simp add: state_ok_def)
  qed
qed

lemma fields_loop_lines:
  assumes call: "\<And>h t out h'. plain_names h \<Longrightarrow> call h t = Some (Inr (out, h'))
            \<Longrightarrow> plain_names h' \<and> text_ok out"
  shows "list_all (\<lambda>f. plain_name (Field_Name f)) fs \<Longrightarrow> state_ok st
    \<Longrightarrow> fields_loop call s d m mut ex fs st = Some (Inr st') \<Longrightarrow> state_ok st'"
proof (induction fs arbitrary: st)
  case Nil
  then show ?case by simp
next
  case (Cons f fs)
  from Cons.prems(3) obtain st1 where
    s1: "field_step call s d m mut ex f st = Some (Inr st1)"
    and r1: "fields_loop call s d m mut ex fs st1 = Some (Inr st')"
    by (auto split: option.splits sum.splits)
  from Cons.prems(1) have f: "plain_name (Field_Name f)"
    and fs: "list_all (\<lambda>f. plain_name (Field_Name f)) fs" by simp_all
  obtain h ls ps where st: "st = (h, ls, ps)" by (cases st)
  obtain h1 ls1 ps1 where st1: "st1 = (h1, ls1, ps1)" by (cases st1)
  from field_step_lines[OF call f Cons.prems(2)[unfolded st] s1[unfolded st st1]]
  have "state_ok st1" by (simp add: st1)
  from Cons.IH[OF fs this r1] show ?case .
qed

lemma possible_step_lines:
  assumes call: "\<And>h t out h'. plain_names h \<Longrightarrow> call h t = Some (Inr (out, h'))
            \<Longrightarrow> plain_names h' \<and> text_ok out"
    and p: "plain_name (TypeRef_Name p)"
    and ps: "list_all plain_name ps"
    and st: "plain_names h" "lines_ok ls"
    and step: "possible_step call s ps p (h, ls) = Some (Inr (h', ls'))"
  shows "plain_names h' \<and> lines_ok ls'"
  using step
proof (cases rule: possible_step_cases)
  case (1 content)
  have keep: "\<not> stringInStrings l ps" if "l \<noteq> []" "hd l = tab" for l
    using ps that plain_not_tabbed[of l] by (auto simp: stringInStrings_def list_all_iff)
  from call[OF st(1) 1(1)] have h': "plain_names h'" and ok: "text_ok content" by simp_all
  have "lines_ok (ls @ [''... on '' @ TypeRef_Name p @ '' {'', tab # ''__typename'']
      @ map ((#) tab) (filter (\<lambda>b. \<not> stringInStrings b ps) (Split content newline)) @ [''}''])"
    using st(2) ok keep p
    by (intro lines_ok_append lines_ok_fragment) (auto simp: plain_name_def)
  with 1(2) h' show ?thesis by simp
qed

lemma possible_loop_lines:
  assumes call: "\<And>h t out h'. plain_names h \<Longrightarrow> call h t = Some (Inr (out, h'))
            \<Longrightarrow> plain_names h' \<and> text_ok out"
    and ps: "list_all plain_name ps"
  shows "list_all (\<lambda>p. plain_name (TypeRef_Name p)) pts \<Longrightarrow> plain_names h \<Longrightarrow> lines_ok ls
    \<Longrightarrow> possible_loop call s ps pts (h, ls) = Some (Inr (h', ls'))
    \<Longrightarrow> plain_names h' \<and> lines_ok ls'"
proof (induction pts arbitrary: h ls)
  case Nil
  then show ?case by simp
next
  case (Cons p pts)
  from Cons.prems(4) obtain h1 ls1 where
    s1: "possible_step call s ps p (h, ls) = Some (Inr (h1, ls1))"
    and r1: "possible_loop call s ps pts (h1, ls1) = Some (Inr (h', ls'))"
    by (auto split: option.splits sum.splits)
  from Cons.prems(1) have p: "plain_name (TypeRef_Name p)"
    and pts: "list_all (\<lambda>p. plain_name (TypeRef_Name p)) pts" by simp_all
  from possible_step_lines[OF call p ps Cons.prems(2,3) s1]
  have "plain_names h1" "lines_ok ls1" by simp_all
  from Cons.IH[OF pts this r1] show ?case .
qed

lemma GetQueryStringFields_lines:
  assumes "plain_names h"
    and "GetQueryStringFields fuel h s t depth maxDepth mut ex = Some (Inr (out, h'))"
  shows "plain_names h' \<and> (\<exists>lines. lines_ok lines \<and> out = Join lines [newline])"
  using assms
proof (induction fuel arbitrary: h t depth out h')
  case 0
  then show ?case by simp
next
  case (Suc n)
  from Suc.prems(2) show ?case
  proof (cases rule: GetQueryStringFields_Some_elim)
    case (1 n' a h2 lines parents lines')
    then have n: "n' = n" by simp
    let ?call = "\<lambda>h' t'. GetQueryStringFields n h' s t' (inc_int depth) maxDepth mut ex"
    have call: "\<And>h t out h'. plain_names h \<Longrightarrow> ?call h t = Some (Inr (out, h'))
        \<Longrightarrow> plain_names h' \<and> text_ok out"
      using Suc.IH by (blast intro: text_ok_Join)
    have h1: "plain_names (h(a := sort_fields (h a)))"
      using fields_sorted_from_upd Suc.prems(1) by (rule plain_names_sorted_from)
    have fs: "list_all (\<lambda>f. plain_name (Field_Name f)) (sort_key Field_Name (Type_Fields (h a)))"
      using Suc.prems(1) by (simp add: plain_names_def list_all_iff)
    have "state_ok (h(a := sort_fields (h a)), [], [])"
      using h1 by (simp add: state_ok_def lines_ok_Nil)
    from fields_loop_lines[where call="?call", OF call fs this 1(3)[unfolded n]]
    have st2: "plain_names h2" "lines_ok lines" "list_all plain_name parents"
      by (simp_all add: state_ok_def)
    have pts: "list_all (\<lambda>p. plain_name (TypeRef_Name p)) (Type_PossibleTypes (h2 a))"
      using st2(1) by (simp add: plain_names_def)
    from possible_loop_lines[where call="?call", OF call st2(3) pts st2(1,2) 1(4)[unfolded n]]
    have "plain_names h'" "lines_ok lines'" by simp_all
    then show ?thesis
      using 1(5) by blast
  qed
qed

lemma GetQueryStringFields_text:
  assumes "plain_names h"
    and "GetQueryStringFields fuel h s t depth maxDepth mut ex = Some (Inr (out, h'))"
  shows "plain_names h' \<and> text_ok out"
  using GetQueryStringFields_lines[OF assms] by (blast intro: text_ok_Join)

text \<open>
  A field of object or interface kind whose sub-selection is the empty string adds nothing
  to the lines: neither its name nor braces.
\<close>

lemma field_step_empty_sub_selection:
  assumes kind: "last (GetKinds (Field_Type f)) = KindObject
      \<or> last (GetKinds (Field_Type f)) = KindInterface"
    and sub: "call h (LookupTypeByName h s (GetTypeName (Field_Type f))) = Some (Inr ([], hsub))"
    and step: "field_step call s d m mut ex f (h, ls, ps) = Some (Inr (h', ls', ps'))"
  shows "ls' = ls \<and> ps' = ps"
  using step
proof (cases rule: field_step_cases)
  case skip
  then show ?thesis by simp
next
  case leaf
  with kind show ?thesis by simp
next
  case (empty b)
  then show ?thesis by simp
next
  case (block b content opt)
  with sub show ?thesis by simp
qed
subsection \<open>Indentation and depth\<close>

lemma indent_tab [simp]: "indent (tab # b) = Suc (indent b)"
  by (simp add: indent_def)

lemma opens_field_tab [simp]: "opens_field (tab # b) = opens_field b"
  by (simp add: opens_field_def)

lemma indent_opener: "plain_name n \<Longrightarrow> indent (n @ '' {'') = 0"
  by (cases n) (auto simp: indent_def plain_name_def tab_def)











lemma depth_ok_opener: "plain_name n \<Longrightarrow> d \<le> m \<Longrightarrow> depth_ok d m [n @ '' {'']"
  by (simp add: depth_ok_def indent_opener)

subsection \<open>The depth bound\<close>






subsection \<open>Fields with a required argument\<close>

lemma lookup_types_without_required:
  "lookup_types (without_required h) ps name = lookup_types h ps name"
  by (induction h ps name rule: lookup_types.induct) (simp_all add: without_required_def)

lemma LookupTypeByName_without_required:
  "LookupTypeByName (without_required h) s name = LookupTypeByName h s name"
  by (simp add: LookupTypeByName_def lookup_types_without_required)

lemma without_required_sort:
  "(without_required h)(a := sort_fields (without_required h a))
     = without_required (h(a := sort_fields (h a)))"
  by (rule ext) (simp add: without_required_def sort_fields_def filter_sort)

lemma field_step_without_required:
  assumes call: "\<And>h t. call' (without_required h) t = lift_call without_required (call h t)"
  shows "field_step call' s d m mut ex f (without_required h, ls, ps)
    = lift_fields without_required (field_step call s d m mut ex f (h, ls, ps))"
proof (cases "LookupTypeByName h s (GetTypeName (Field_Type f))")
  case None
  then show ?thesis
    by (simp add: field_step_def lift_fields_def Let_def LookupTypeByName_without_required)
next
  case (Some b)
  show ?thesis
  proof (cases "call h (Some b)")
    case None
    with Some call[of h "Some b"] show ?thesis
      by (simp add: field_step_def lift_fields_def lift_call_def Let_def
          LookupTypeByName_without_required)
  next
    case outer: (Some r)
    show ?thesis
    proof (cases r)
      case (Inl p)
      with Some outer call[of h "Some b"] show ?thesis
        by (simp add: field_step_def lift_fields_def lift_call_def Let_def
            LookupTypeByName_without_required)
    next
      case (Inr v)
      obtain content h1 where v: "v = (content, h1)" by (cases v)
      with Inr Some outer call[of h "Some b"] show ?thesis
        by (simp add: field_step_def lift_fields_def lift_call_def Let_def
            LookupTypeByName_without_required)
    qed
  qed
qed

lemma fields_loop_without_required:
  assumes call: "\<And>h t. call' (without_required h) t = lift_call without_required (call h t)"
  shows "fields_loop call' s d m False ex (filter (\<lambda>f. \<not> HasRequiredArg f) fs)
      (without_required h, ls, ps)
    = lift_fields without_required (fields_loop call s d m False ex fs (h, ls, ps))"
proof (induction fs arbitrary: h ls ps)
  case Nil
  show ?case by (simp add: lift_fields_def)
next
  case (Cons f fs)
  show ?case
  proof (cases "HasRequiredArg f")
    case True
    then have "field_step call s d m False ex f (h, ls, ps) = Some (Inr (h, ls, ps))"
      by (simp add: field_step_def)
    with True Cons.IH show ?thesis by simp
  next
    case False
    note step = field_step_without_required[of call' call s d m False ex f h ls ps, OF call]
    show ?thesis
    proof (cases "field_step call s d m False ex f (h, ls, ps)")
      case None
      with False step show ?thesis by (simp add: lift_fields_def)
    next
      case (Some r)
      show ?thesis
      proof (cases r)
        case (Inl p)
        with Some False step show ?thesis by (simp add: lift_fields_def)
      next
        case (Inr st)
        obtain h1 ls1 ps1 where st: "st = (h1, ls1, ps1)" by (cases st)
        with Inr Some False step Cons.IH[of h1 ls1 ps1] show ?thesis
          by (simp add: lift_fields_def)
      qed
    qed
  qed
qed

lemma possible_step_without_required:
  assumes call: "\<And>h t. call' (without_required h) t = lift_call without_required (call h t)"
  shows "possible_step call' s ps p (without_required h, ls)
    = lift_possible without_required (possible_step call s ps p (h, ls))"
proof (cases "call h (LookupTypeByName h s (TypeRef_Name p))")
  case None
  with call[of h "LookupTypeByName h s (TypeRef_Name p)"] show ?thesis
    by (simp add: possible_step_def lift_possible_def lift_call_def Let_def
        LookupTypeByName_without_required)
next
  case (Some r)
  show ?thesis
  proof (cases r)
    case (Inl e)
    with Some call[of h "LookupTypeByName h s (TypeRef_Name p)"] show ?thesis
      by (simp add: possible_step_def lift_possible_def lift_call_def Let_def
          LookupTypeByName_without_required)
  next
    case (Inr v)
    obtain content h1 where v: "v = (content, h1)" by (cases v)
    with Inr Some call[of h "LookupTypeByName h s (TypeRef_Name p)"] show ?thesis
      by (simp add: possible_step_def lift_possible_def lift_call_def Let_def
          LookupTypeByName_without_required)
  qed
qed

lemma possible_loop_without_required:
  assumes call: "\<And>h t. call' (without_required h) t = lift_call without_required (call h t)"
  shows "possible_loop call' s ps pts (without_required h, ls)
    = lift_possible without_required (possible_loop call s ps pts (h, ls))"
proof (induction pts arbitrary: h ls)
  case Nil
  show ?case by (simp add: lift_possible_def)
next
  case (Cons p pts)
  note step = possible_step_without_required[of call' call s ps p h ls, OF call]
  show ?case
  proof (cases "possible_step call s ps p (h, ls)")
    case None
    with step show ?thesis by (simp add: lift_possible_def)
  next
    case (Some r)
    show ?thesis
    proof (cases r)
      case (Inl e)
      with Some step show ?thesis by (simp add: lift_possible_def)
    next
      case (Inr st)
      obtain h1 ls1 where st: "st = (h1, ls1)" by (cases st)
      with Inr Some step Cons.IH[of h1 ls1] show ?thesis
        by (simp add: lift_possible_def)
    qed
  qed
qed

lemma GetQueryStringFields_without_required:
  "GetQueryStringFields fuel (without_required h) s t depth maxDepth False ex
     = lift_call without_required (GetQueryStringFields fuel h s t depth maxDepth False ex)"
proof (induction fuel arbitrary: h t depth)
  case 0
  show ?case by (simp add: lift_call_def)
next
  case (Suc n)
  show ?case
  proof (cases t)
    case None
    then show ?thesis by (simp add: lift_call_def)
  next
    case (Some a)
    let ?call = "\<lambda>h' t'. GetQueryStringFields n h' s t' (inc_int depth) maxDepth False ex"
    let ?h1 = "h(a := sort_fields (h a))"
    have call: "\<And>h t. ?call (without_required h) t = lift_call without_required (?call h t)"
      by (rule Suc.IH)
    have fs: "Type_Fields (without_required ?h1 a)
        = filter (\<lambda>f. \<not> HasRequiredArg f) (Type_Fields (?h1 a))"
      by (simp add: without_required_def)
    note fl = fields_loop_without_required[of ?call ?call s "inc_int depth" maxDepth ex
        "Type_Fields (?h1 a)" ?h1 "[]" "[]", OF call]
    show ?thesis
    proof (cases "fields_loop ?call s (inc_int depth) maxDepth False ex
        (Type_Fields (?h1 a)) (?h1, [], [])")
      case None
      with fl fs Some show ?thesis
        by (simp add: Let_def without_required_sort lift_fields_def lift_call_def)
    next
      case outer: (Some r)
      show ?thesis
      proof (cases r)
        case (Inl e)
        with outer fl fs Some show ?thesis
          by (simp add: Let_def without_required_sort lift_fields_def lift_call_def)
      next
        case (Inr st)
        obtain h2 lines parents where st: "st = (h2, lines, parents)" by (cases st)
        have pts: "Type_PossibleTypes (without_required h2 a) = Type_PossibleTypes (h2 a)"
          by (simp add: without_required_def)
        note pl = possible_loop_without_required[of ?call ?call s parents
            "Type_PossibleTypes (h2 a)" h2 lines, OF call]
        show ?thesis
        proof (cases "possible_loop ?call s parents (Type_PossibleTypes (h2 a)) (h2, lines)")
          case None
          with Inr st outer fl fs pl pts Some show ?thesis
            by (simp add: Let_def without_required_sort lift_fields_def lift_possible_def
                lift_call_def)
        next
          case inner: (Some r2)
          show ?thesis
          proof (cases r2)
            case (Inl e)
            with inner Inr st outer fl fs pl pts Some show ?thesis
              by (simp add: Let_def without_required_sort lift_fields_def lift_possible_def
                  lift_call_def)
          next
            case inr2: (Inr st2)
            obtain h3 lines' where st2: "st2 = (h3, lines')" by (cases st2)
            with inr2 inner Inr st outer fl fs pl pts Some show ?thesis
              by (simp add: Let_def without_required_sort lift_fields_def lift_possible_def
                  lift_call_def)
          qed
        qed
      qed
    qed
  qed
qed
subsection \<open>The fragments of the possible types\<close>





















section \<open>The synthesis on the example schemas\<close>

text \<open>
  C8, as amended. Synthesizing \<open>Animal\<close>, at any depth and with enough fuel for the nested
  calls, yields the lines \<open>age\<close>, \<open>name\<close>, then the fragment on \<open>Dog\<close> with
  \<open>__typename\<close> and \<open>breed\<close>, then the fragment on \<open>Cat\<close> with \<open>__typename\<close> and
  \<open>indoor\<close>: the direct fields in ascending order, the fragments in the order of the
  possible types, no \<open>__typename\<close> line of the type itself, and no field of the parent
  repeated in a fragment.
\<close>

theorem animal_selection:
  "map_option (map_sum id fst)
     (GetQueryStringFields (Suc (Suc n)) animal_heap animal_schema (Some 1)
        depth maxDepth isMutation [])
   = Some (Inr (Join [''age'', ''name'',
        ''... on Dog {'', tab # ''__typename'', tab # ''breed'', ''}'',
        ''... on Cat {'', tab # ''__typename'', tab # ''indoor'', ''}''] [newline]))"
  by (simp add: animal_heap_def animal_schema_def example_defs synthesis_defs)

text \<open>
  C8 as stated fails: the output is not the text that starts with \<open>__typename\<close> and has
  the fragment on \<open>Cat\<close> before the fragment on \<open>Dog\<close>.
\<close>

theorem animal_selection_counterexample:
  "map_option (map_sum id fst)
     (GetQueryStringFields 2 animal_heap animal_schema (Some 1) 0 1 False [])
   \<noteq> Some (Inr (Join [''__typename'', ''age'', ''name'',
        ''... on Cat {'', tab # ''__typename'', tab # ''indoor'', ''}'',
        ''... on Dog {'', tab # ''__typename'', tab # ''breed'', ''}''] [newline]))"
  by (simp add: numeral_2_eq_2 animal_heap_def animal_schema_def example_defs synthesis_defs)

text \<open>
  C6 at a failing input. The possible type \<open>Ghost\<close> of \<open>Node\<close> does not resolve; the
  failure is logged, and the method is then called on the nil pointer, where reading the
  fields panics. The loop over the fields does \<open>continue\<close> after a failed lookup; the loop
  over the possible types does not.
\<close>

theorem unresolved_possible_type_panics:
  "GetQueryStringFields (Suc (Suc n)) ghost_heap ghost_schema (Some 1)
     depth maxDepth isMutation excludeFields = Some (Inl NilPointerDereference)"
  by (simp add: ghost_heap_def ghost_schema_def example_defs synthesis_defs)

text \<open>
  C7, as amended. A call that returns leaves every struct of the store as it was or with its
  \<open>Fields\<close> stably sorted by name, and nothing else of a struct is touched; the struct
  behind the receiver is left with its fields sorted. The sort is made in place on the
  struct that the lookups share, so it stays after the call.
\<close>

theorem synthesis_sorts_fields_in_place:
  assumes "GetQueryStringFields fuel h s t depth maxDepth isMutation excludeFields
             = Some (Inr (out, h'))"
  shows "(\<forall>a. h' a = h a \<or> h' a = sort_fields (h a))
    \<and> (\<exists>a. t = Some a \<and> h' a = sort_fields (h a))"
proof -
  from assms have frame: "fields_sorted_from h h'"
    by (rule GetQueryStringFields_heap)
  from assms obtain n a h2 lines parents lines' where
    t: "t = Some a"
    and fl: "fields_loop
        (\<lambda>h' t'. GetQueryStringFields n h' s t' (inc_int depth) maxDepth isMutation excludeFields)
        s (inc_int depth) maxDepth isMutation excludeFields
        (sort_key Field_Name (Type_Fields (h a))) (h(a := sort_fields (h a)), [], [])
      = Some (Inr (h2, lines, parents))"
    and pl: "possible_loop
        (\<lambda>h' t'. GetQueryStringFields n h' s t' (inc_int depth) maxDepth isMutation excludeFields)
        s parents (Type_PossibleTypes (h2 a)) (h2, lines) = Some (Inr (h', lines'))"
    by (rule GetQueryStringFields_Some_elim)
  have call: "\<And>h t out h'.
      GetQueryStringFields n h s t (inc_int depth) maxDepth isMutation excludeFields
        = Some (Inr (out, h')) \<Longrightarrow> fields_sorted_from h h'"
    by (rule GetQueryStringFields_heap)
  have "fields_sorted_from (h(a := sort_fields (h a))) h2"
    using call fl by (rule fields_loop_heap)
  moreover have "fields_sorted_from h2 h'"
    using call pl by (rule possible_loop_heap)
  ultimately have "fields_sorted_from (h(a := sort_fields (h a))) h'"
    by (rule fields_sorted_from_trans)
  then have "h' a = sort_fields (h a)"
    by (auto simp: fields_sorted_from_def sort_fields_idem dest: spec[where x=a])
  with frame t show ?thesis
    by (simp add: fields_sorted_from_def)
qed

theorem synthesis_sorts_fields_in_place_witness:
  "\<exists>out h'. GetQueryStringFields 2 animal_heap animal_schema (Some 1) 0 1 False []
        = Some (Inr (out, h'))
     \<and> h' 1 = sort_fields (animal_heap 1)
     \<and> map Field_Name (Type_Fields (animal_heap 1)) = [''name'', ''age'']
     \<and> map Field_Name (Type_Fields (h' 1)) = [''age'', ''name'']"
proof -
  have "\<exists>out h'. GetQueryStringFields 2 animal_heap animal_schema (Some 1) 0 1 False []
      = Some (Inr (out, h'))"
    by (simp add: numeral_2_eq_2 animal_heap_def animal_schema_def example_defs synthesis_defs)
  then obtain out h' where
    run: "GetQueryStringFields 2 animal_heap animal_schema (Some 1) 0 1 False []
      = Some (Inr (out, h'))"
    by blast
  from synthesis_sorts_fields_in_place[OF run]
  have sorted: "h' 1 = sort_fields (animal_heap 1)" by simp
  have "map Field_Name (Type_Fields (animal_heap 1)) = [''name'', ''age'']"
    by (simp add: animal_heap_def example_defs)
  moreover have "map Field_Name (Type_Fields (sort_fields (animal_heap 1))) = [''age'', ''name'']"
    by (simp add: animal_heap_def example_defs sort_fields_def)
  ultimately show ?thesis using run sorted by auto
qed

text \<open>
  C7 as stated fails: after synthesizing \<open>Animal\<close> the struct of \<open>Animal\<close> in the store
  has its fields in another order than before.
\<close>

theorem animal_fields_reordered_counterexample:
  "(case GetQueryStringFields 2 animal_heap animal_schema (Some 1) 0 1 False [] of
      Some (Inr (out, h')) \<Rightarrow> h' 1 \<noteq> animal_heap 1
    | _ \<Rightarrow> False)"
  by (simp add: numeral_2_eq_2 animal_heap_def animal_schema_def example_defs synthesis_defs)

text \<open>
  The selection of \<open>Shop\<close> to the depth of two: the block of \<open>item\<close> holds the block of
  \<open>maker\<close>, and \<open>vault\<close>, whose type has no field, is left out.
\<close>

lemma shop_plain_names: "plain_names shop_heap"
  by (simp add: plain_names_def plain_name_def shop_heap_def example_defs newline_def tab_def)

lemma shop_selection:
  "\<exists>h'. GetQueryStringFields 3 shop_heap shop_schema (Some 1) 0 2 False [] =
     Some (Inr (Join [''item {'', tab # ''id'', tab # ''maker {'', tab # tab # ''name'',
       tab # ''}'', ''}'', ''name''] [newline], h'))"
  by (simp add: numeral_3_eq_3 Let_def inc_int_def shop_heap_def shop_schema_def example_defs synthesis_defs)

text \<open>
  C3. In the output of a call that returns, on a schema with plain names, every line that
  opens a block is followed by a line that is not hollow: no block is closed at once, and
  none holds only an empty line. The emission of a field with an empty sub-selection would
  be a block with one empty line; such a field adds nothing to the lines
  (\<open>field_step_empty_sub_selection\<close>).
\<close>

theorem no_empty_blocks:
  assumes "plain_names h"
    and "GetQueryStringFields fuel h s t depth maxDepth isMutation excludeFields
           = Some (Inr (out, h'))"
  shows "no_empty_block (Split out newline)"
  using GetQueryStringFields_text[OF assms]
  by (simp add: text_ok_def blocks_filled_no_empty)

theorem no_empty_blocks_witness:
  "\<exists>out h'. GetQueryStringFields 3 shop_heap shop_schema (Some 1) 0 2 False []
        = Some (Inr (out, h'))
     \<and> out = Join [''item {'', tab # ''id'', tab # ''maker {'', tab # tab # ''name'',
         tab # ''}'', ''}'', ''name''] [newline]
     \<and> plain_names shop_heap
     \<and> no_empty_block (Split out newline)"
proof -
  from shop_selection obtain h' where
    run: "GetQueryStringFields 3 shop_heap shop_schema (Some 1) 0 2 False [] =
     Some (Inr (Join [''item {'', tab # ''id'', tab # ''maker {'', tab # tab # ''name'',
       tab # ''}'', ''}'', ''name''] [newline], h'))"
    by blast
  from no_empty_blocks[OF shop_plain_names run] run shop_plain_names
  show ?thesis by blast
qed



text \<open>
  C4. Outside a mutation the fields that have a required argument do not bear on the output
  at all: for every store, schema, receiver, depth and exclusions, the call gives the same
  string (or the same panic, or needs more fuel alike) as on the store from which those
  fields are removed; so no line of the output comes from such a field. In a mutation the
  test is not made: the selection of \<open>Desk\<close> has the line of \<open>open\<close>, the field with the
  required argument \<open>code\<close>, and outside a mutation it has not.
\<close>

theorem required_argument_fields_left_out:
  "map_option (map_sum id fst)
     (GetQueryStringFields fuel h s t depth maxDepth False excludeFields)
   = map_option (map_sum id fst)
       (GetQueryStringFields fuel (without_required h) s t depth maxDepth False excludeFields)
   \<and> map HasRequiredArg (Type_Fields (desk_heap 1)) = [True, False]
   \<and> map_option (map_sum id fst)
       (GetQueryStringFields (Suc n) desk_heap desk_schema (Some 1) depth' maxDepth' True [])
     = Some (Inr (Join [''label'', ''open''] [newline]))
   \<and> map_option (map_sum id fst)
       (GetQueryStringFields (Suc n) desk_heap desk_schema (Some 1) depth' maxDepth' False [])
     = Some (Inr ''label'')"
proof -
  have "map_option (map_sum id fst)
      (lift_call without_required
        (GetQueryStringFields fuel h s t depth maxDepth False excludeFields))
    = map_option (map_sum id fst)
        (GetQueryStringFields fuel h s t depth maxDepth False excludeFields)"
  proof (cases "GetQueryStringFields fuel h s t depth maxDepth False excludeFields")
    case None
    then show ?thesis by (simp add: lift_call_def)
  next
    case (Some r)
    then show ?thesis by (cases r) (auto simp: lift_call_def)
  qed
  then have general: "map_option (map_sum id fst)
     (GetQueryStringFields fuel h s t depth maxDepth False excludeFields)
   = map_option (map_sum id fst)
       (GetQueryStringFields fuel (without_required h) s t depth maxDepth False excludeFields)"
    by (simp add: GetQueryStringFields_without_required)
  have args: "map HasRequiredArg (Type_Fields (desk_heap 1)) = [True, False]"
    by (simp add: desk_heap_def example_defs HasRequiredArg_def IsRequired_def)
  have mutation: "map_option (map_sum id fst)
       (GetQueryStringFields (Suc n) desk_heap desk_schema (Some 1) depth' maxDepth' True [])
     = Some (Inr (Join [''label'', ''open''] [newline]))"
    by (simp add: Let_def desk_heap_def desk_schema_def example_defs synthesis_defs)
  have query: "map_option (map_sum id fst)
       (GetQueryStringFields (Suc n) desk_heap desk_schema (Some 1) depth' maxDepth' False [])
     = Some (Inr ''label'')"
    by (simp add: Let_def desk_heap_def desk_schema_def example_defs synthesis_defs)
  from general args mutation query show ?thesis by blast
qed









end
